theory Spec2Isabelle
  imports Main
begin

section \<open>Python strings\<close>

text \<open>
  A Python \<open>str\<close> is a sequence of Unicode code points. It is modelled as a list of
  natural numbers, one per code point, so that \<open>length\<close>, slicing and the whitespace
  test of \<open>str.strip\<close> count what Python counts. \<open>str\<close> turns an ASCII literal into
  such a list.
\<close>

type_synonym pystr = "nat list"

definition str :: "string \<Rightarrow> pystr" where
  "str s = map of_char s"

definition nl :: nat where
  "nl = 10"

definition star :: nat where
  "star = 42"

text \<open>
  The characters that \<open>str.strip()\<close> removes: tab to carriage return, the four separators
  U+001C to U+001F, space, U+0085, U+00A0, U+1680, U+2000 to U+200A, U+2028, U+2029,
  U+202F, U+205F and U+3000.
\<close>

definition is_space :: "nat \<Rightarrow> bool" where
  "is_space c =
     ((9 \<le> c \<and> c \<le> 13) \<or> (28 \<le> c \<and> c \<le> 32) \<or> c = 133 \<or> c = 160 \<or> c = 5760
      \<or> (8192 \<le> c \<and> c \<le> 8202) \<or> c = 8232 \<or> c = 8233 \<or> c = 8239 \<or> c = 8287
      \<or> c = 12288)"

definition strip :: "pystr \<Rightarrow> pystr" where
  "strip s = rev (dropWhile is_space (rev (dropWhile is_space s)))"

definition startswith :: "pystr \<Rightarrow> pystr \<Rightarrow> bool" where
  "startswith s p = (take (length p) s = p)"

text \<open>
  \<open>text.split('\n')\<close>: never empty, one more piece than there are newlines. A character
  other than the newline joins the first piece of the rest (the rest always has one; the
  \<open>[]\<close> branch is never taken).
\<close>

fun split_nl :: "pystr \<Rightarrow> pystr list" where
  "split_nl [] = [[]]"
| "split_nl (c # cs) =
     (case split_nl cs of
        [] \<Rightarrow> [[c]]
      | l # ls \<Rightarrow> if c = nl then [] # l # ls else (c # l) # ls)"

text \<open>\<open>'\n'.join(lines)\<close>.\<close>

fun join_nl :: "pystr list \<Rightarrow> pystr" where
  "join_nl [] = []"
| "join_nl [l] = l"
| "join_nl (l # m # ls) = l @ nl # join_nl (m # ls)"

section \<open>The markdown formatter of \<open>llm_helper.py\<close>\<close>

subsection \<open>Bold spans\<close>

text \<open>
  \<open>re.sub(r'\*\*(.*?)\*\*', r'<b>\1</b>', text)\<close>. After an opening \<open>**\<close> the lazy
  group grows one character at a time: at each position the closing \<open>**\<close> is tried
  first, and \<open>.\<close> refuses a newline. \<open>find_close\<close> is that search on the text after the
  opening pair; it returns the group and the text after the closing pair.
\<close>

fun find_close :: "pystr \<Rightarrow> (pystr \<times> pystr) option" where
  "find_close [] = None"
| "find_close (c # cs) =
     (if c = star \<and> cs \<noteq> [] \<and> hd cs = star then Some ([], tl cs)
      else if c = nl then None
      else map_option (\<lambda>(x, r). (c # x, r)) (find_close cs))"

definition B_OPEN :: pystr where
  "B_OPEN = str ''<b>''"

definition B_CLOSE :: pystr where
  "B_CLOSE = str ''</b>''"

text \<open>
  The substitution scans from the left; where no match starts the character is kept and
  the scan moves on by one, after a match it resumes behind the closing pair.
\<close>

function sub_bold :: "pystr \<Rightarrow> pystr" where
  "sub_bold [] = []"
| "sub_bold (c # cs) =
     (if c = star \<and> cs \<noteq> [] \<and> hd cs = star then
        (case find_close (tl cs) of
           Some (x, r) \<Rightarrow> B_OPEN @ x @ B_CLOSE @ sub_bold r
         | None \<Rightarrow> c # sub_bold cs)
      else c # sub_bold cs)"
  by pat_completeness auto

lemma find_close_shorter: "find_close t = Some (x, r) \<Longrightarrow> length r < length t"
proof (induction t arbitrary: x)
  case Nil
  then show ?case by simp
next
  case (Cons c cs)
  then show ?case
    by (cases cs) (auto split: if_splits)
qed

termination sub_bold
proof (relation "measure length")
  show "wf (measure length)" by simp
next
  fix c :: nat and cs :: pystr and x2 x r
  assume "c = star \<and> cs \<noteq> [] \<and> hd cs = star" and "find_close (tl cs) = Some x2"
    and "(x, r) = x2"
  then have "length r < length (tl cs)"
    using find_close_shorter [of "tl cs" x r] by simp
  then show "(r, c # cs) \<in> measure length" by simp
next
  fix c :: nat and cs :: pystr
  show "(cs, c # cs) \<in> measure length" by simp
next
  fix c :: nat and cs :: pystr
  show "(cs, c # cs) \<in> measure length" by simp
qed

subsection \<open>Headers\<close>

text \<open>
  \<open>re.sub(r'^### (.*?)$', r'<h3 ...>\1</h3>', text, flags=re.MULTILINE)\<close> and its two
  siblings. With \<open>re.MULTILINE\<close>, \<open>^\<close> matches at the start of the text and behind every
  newline, \<open>$\<close> at the end of the text and before every newline; the lazy group cannot cross
  a newline, so a match is a whole line that starts with the prefix and the group is the
  rest of that line. The substitution therefore rewrites the text line by line.
\<close>

definition sub_header :: "pystr \<Rightarrow> pystr \<Rightarrow> pystr \<Rightarrow> pystr \<Rightarrow> pystr" where
  "sub_header prefix opn cls text =
     join_nl (map (\<lambda>line. if startswith line prefix
                            then opn @ drop (length prefix) line @ cls
                            else line)
                  (split_nl text))"

definition H3_OPEN :: pystr where
  "H3_OPEN = str ''<h3 style=\"color: #2c5aa0; margin: 16px 0 8px 0; font-size: 14pt; font-weight: bold;\">''"

definition H3_CLOSE :: pystr where
  "H3_CLOSE = str ''</h3>''"

definition H2_OPEN :: pystr where
  "H2_OPEN = str ''<h2 style=\"color: #1e4176; margin: 18px 0 10px 0; font-size: 16pt; font-weight: bold;\">''"

definition H2_CLOSE :: pystr where
  "H2_CLOSE = str ''</h2>''"

definition H1_OPEN :: pystr where
  "H1_OPEN = str ''<h1 style=\"color: #1a365d; margin: 20px 0 12px 0; font-size: 18pt; font-weight: bold;\">''"

definition H1_CLOSE :: pystr where
  "H1_CLOSE = str ''</h1>''"

subsection \<open>Bullet lists and paragraphs\<close>

definition UL_OPEN :: pystr where
  "UL_OPEN = str ''<ul style=\"margin: 8px 0; padding-left: 20px;\">''"

definition UL_CLOSE :: pystr where
  "UL_CLOSE = str ''</ul>''"

definition LI_OPEN :: pystr where
  "LI_OPEN = str ''<li style=\"margin: 4px 0; line-height: 1.4;\">''"

definition LI_CLOSE :: pystr where
  "LI_CLOSE = str ''</li>''"

definition P_OPEN :: pystr where
  "P_OPEN = str ''<p style=\"margin: 8px 0; line-height: 1.5;\">''"

definition P_CLOSE :: pystr where
  "P_CLOSE = str ''</p>''"

text \<open>
  One turn of the \<open>for line in lines\<close> loop, on the pair
  \<open>(formatted_lines, in_list)\<close>.
\<close>

fun scan_line :: "pystr list \<times> bool \<Rightarrow> pystr \<Rightarrow> pystr list \<times> bool" where
  "scan_line (formatted_lines, in_list) line =
     (let stripped = strip line in
      if startswith stripped (str ''- '') then
        (let opened = (if \<not> in_list then formatted_lines @ [UL_OPEN] else formatted_lines)
         in (opened @ [LI_OPEN @ drop 2 stripped @ LI_CLOSE], True))
      else
        (let closed = (if in_list then formatted_lines @ [UL_CLOSE] else formatted_lines)
         in (if stripped \<noteq> [] then closed @ [P_OPEN @ line @ P_CLOSE] else closed, False)))"

text \<open>The loop, then the \<open>if in_list\<close> after it: the value of \<open>formatted_lines\<close>.\<close>

definition scan_lines :: "pystr list \<Rightarrow> pystr list" where
  "scan_lines lines =
     (case foldl scan_line ([], False) lines of
        (formatted_lines, in_list) \<Rightarrow>
          if in_list then formatted_lines @ [UL_CLOSE] else formatted_lines)"

definition format_markdown_to_html :: "pystr \<Rightarrow> pystr" where
  "format_markdown_to_html text =
     (let text = sub_bold text;
          text = sub_header (str ''### '') H3_OPEN H3_CLOSE text;
          text = sub_header (str ''## '') H2_OPEN H2_CLOSE text;
          text = sub_header (str ''# '') H1_OPEN H1_CLOSE text
      in join_nl (scan_lines (split_nl text)))"

subsection \<open>Chat messages\<close>

text \<open>
  The two f-strings of \<open>format_chat_message\<close>, with their line breaks and indentation,
  cut into their literal segments around the interpolated fields. The code points 128100
  and 129302 are the two emoji of the templates.
\<close>

definition USER_HEAD :: pystr where
  "USER_HEAD =
     str ''\<newline>''
     @ str ''            <div style=\"margin: 16px 0; padding: 12px 16px; background: #e6fffa; border-left: 4px solid #38b2ac; border-radius: 8px;\">\<newline>''
     @ str ''                <div style=\"font-weight: bold; color: #2c7a7b; margin-bottom: 6px;\">''
     @ [128100] @ str '' ''"

definition USER_MID :: pystr where
  "USER_MID = str '':</div>\<newline>                <div style=\"color: #234e52; line-height: 1.5;\">''"

definition USER_TAIL :: pystr where
  "USER_TAIL = str ''</div>\<newline>''
     @ str ''            </div>\<newline>''
     @ str ''            ''"

definition AI_HEAD :: pystr where
  "AI_HEAD =
     str ''\<newline>''
     @ str ''            <div style=\"margin: 16px 0; padding: 16px; background: #f0f9ff; border-left: 4px solid #3b82f6; border-radius: 8px;\">\<newline>''
     @ str ''                <div style=\"font-weight: bold; color: #1e40af; margin-bottom: 8px;\">''
     @ [129302]
     @ str '' AI Assistant:</div>\<newline>''
     @ str ''                <div style=\"color: #1e3a8a; line-height: 1.6;\">''"

definition AI_TAIL :: pystr where
  "AI_TAIL = str ''</div>\<newline>''
     @ str ''            </div>\<newline>''
     @ str ''            ''"

definition format_chat_message :: "pystr \<Rightarrow> pystr \<Rightarrow> bool \<Rightarrow> pystr" where
  "format_chat_message sender message is_user =
     (if is_user then USER_HEAD @ sender @ USER_MID @ message @ USER_TAIL
      else
        (let formatted_msg = format_markdown_to_html message
         in AI_HEAD @ formatted_msg @ AI_TAIL))"

text \<open>The loop \<open>formatted_html += ...\<close> over the history.\<close>

definition build_chat_history_html :: "(pystr \<times> pystr) list \<Rightarrow> pystr" where
  "build_chat_history_html chat_history =
     foldl (\<lambda>formatted_html (sender, message).
              formatted_html @ format_chat_message sender message (sender = str ''You''))
           [] chat_history"

subsection \<open>Model selection\<close>

record llm_helper =
  model :: pystr

datatype error = ValueError pystr

definition get_available_models :: "pystr list" where
  "get_available_models = [str ''gpt-4o-mini'', str ''gpt-4o'', str ''gpt-3.5-turbo'']"

text \<open>
  \<open>set_model\<close> returns nothing and may raise: the result is the exception or \<open>()\<close>,
  paired with the helper as the call leaves it.
\<close>

definition set_model :: "llm_helper \<Rightarrow> pystr \<Rightarrow> (error + unit) \<times> llm_helper" where
  "set_model self m =
     (let available_models = get_available_models in
      if m \<notin> set available_models then
        (Inl (ValueError (str ''Model '' @ m @ str '' not in available models: ''
                          @ str ''['gpt-4o-mini', 'gpt-4o', 'gpt-3.5-turbo']'')), self)
      else (Inr (), self\<lparr>model := m\<rparr>))"

section \<open>The chat transcript of \<open>main.py\<close>\<close>

text \<open>\<open>get_welcome_message\<close> of styles.py, character by character as the file has it.\<close>

definition get_welcome_message :: pystr where
  "get_welcome_message =
     str ''\<newline>''
     @ str ''    <div style=\"text-align: center; color: #718096; margin: 40px 20px;\">\<newline>''
     @ str ''        <h3 style=\"color: #4a5568; margin-bottom: 12px;\">''
     @ [240, 376, 8216, 8249]
     @ str '' Welcome to your AI Data Assistant!</h3>\<newline>''
     @ str ''        <p style=\"margin: 8px 0; line-height: 1.6;\">Load your data on the left, then ask questions like:</p>\<newline>''
     @ str ''        <ul style=\"text-align: left; max-width: 400px; margin: 16px auto;\">\<newline>''
     @ str ''            <li style=\"margin: 6px 0;\">\"What are the main trends in this data?\"</li>\<newline>''
     @ str ''            <li style=\"margin: 6px 0;\">\"Convert this to JSON format\"</li>\<newline>''
     @ str ''            <li style=\"margin: 6px 0;\">\"Show me correlations between columns\"</li>\<newline>''
     @ str ''            <li style=\"margin: 6px 0;\">\"Summarize the key insights\"</li>\<newline>''
     @ str ''        </ul>\<newline>''
     @ str ''    </div>\<newline>''
     @ str ''    ''"

text \<open>
  The part of \<open>DataChatBotDemo\<close> that the transcript operations read and write: the
  history, the markup last given to the chat area by \<open>setHtml\<close>, and the status text.
\<close>

record app =
  chat_history :: "(pystr \<times> pystr) list"
  chat_area :: pystr
  status :: pystr

text \<open>
  The widget after \<open>__init__\<close>: an empty history, the welcome markup in the chat area and
  the first status text (226, 8364, 162 are the three characters between its words).
\<close>

definition init_app :: app where
  "init_app =
     \<lparr>chat_history = [],
      chat_area = get_welcome_message,
      status = str ''Ready '' @ [226, 8364, 162] @ str '' Load your data and start asking questions''\<rparr>"

definition add_to_chat :: "app \<Rightarrow> pystr \<Rightarrow> pystr \<Rightarrow> app" where
  "add_to_chat self sender message =
     (let message = strip message in
      if message = [] then self
      else
        (let self = self\<lparr>chat_history := chat_history self @ [(sender, message)]\<rparr>;
             formatted_html = build_chat_history_html (chat_history self)
         in self\<lparr>chat_area := formatted_html\<rparr>))"

definition clear_chat_history :: "app \<Rightarrow> app" where
  "clear_chat_history self =
     self\<lparr>chat_history := [],
          chat_area := get_welcome_message,
          status := str ''Chat history cleared''\<rparr>"

definition get_chat_history :: "app \<Rightarrow> (pystr \<times> pystr) list" where
  "get_chat_history self = chat_history self"

text \<open>The operations on the transcript, and a run of them from a given state.\<close>

datatype chat_op = Append pystr pystr | Clear

fun apply_chat_op :: "app \<Rightarrow> chat_op \<Rightarrow> app" where
  "apply_chat_op self (Append sender message) = add_to_chat self sender message"
| "apply_chat_op self Clear = clear_chat_history self"

definition run_chat_ops :: "app \<Rightarrow> chat_op list \<Rightarrow> app" where
  "run_chat_ops self ops = foldl apply_chat_op self ops"

text \<open>
  The invariant of the transcript: every stored message is non-empty and equal to its own
  \<open>strip\<close>.
\<close>

definition entry_ok :: "pystr \<times> pystr \<Rightarrow> bool" where
  "entry_ok e = (snd e \<noteq> [] \<and> strip (snd e) = snd e)"

definition history_ok :: "app \<Rightarrow> bool" where
  "history_ok self = list_all entry_ok (chat_history self)"

section \<open>Notions used in the statements\<close>

text \<open>A bullet line is one whose stripped form starts with \<open>"- "\<close>: the test of the loop.\<close>

definition is_bullet :: "pystr \<Rightarrow> bool" where
  "is_bullet line = startswith (strip line) (str ''- '')"

text \<open>
  What one turn of the loop appends to \<open>formatted_lines\<close>, and what the loop and the final
  \<open>if in_list\<close> append over a list of lines; \<open>scan_line_emit\<close> and \<open>scan_lines_emits\<close> below
  show that they describe \<open>scan_line\<close> and \<open>scan_lines\<close>.
\<close>

definition emit :: "bool \<Rightarrow> pystr \<Rightarrow> pystr list" where
  "emit in_list line =
     (if is_bullet line
      then (if in_list then [] else [UL_OPEN]) @ [LI_OPEN @ drop 2 (strip line) @ LI_CLOSE]
      else (if in_list then [UL_CLOSE] else [])
           @ (if strip line = [] then [] else [P_OPEN @ line @ P_CLOSE]))"

fun emits :: "bool \<Rightarrow> pystr list \<Rightarrow> pystr list" where
  "emits in_list [] = (if in_list then [UL_CLOSE] else [])"
| "emits in_list (line # lines) = emit in_list line @ emits (is_bullet line) lines"

text \<open>
  The three header substitutions seen on one line; \<open>format_lines\<close> below shows that the
  formatter scans the lines of the text after \<open>sub_bold\<close> with \<open>header_line\<close> applied to each.
\<close>

definition header_line :: "pystr \<Rightarrow> pystr" where
  "header_line line =
     (if startswith line (str ''### '') then H3_OPEN @ drop 4 line @ H3_CLOSE
      else if startswith line (str ''## '') then H2_OPEN @ drop 3 line @ H2_CLOSE
      else if startswith line (str ''# '') then H1_OPEN @ drop 2 line @ H1_CLOSE
      else line)"

text \<open>
  List markers alternate when, read from the top, every \<open>UL_OPEN\<close> comes while no list is
  open, every \<open>UL_CLOSE\<close> while one is open, and none is open at the end.
\<close>

fun alternating :: "bool \<Rightarrow> pystr list \<Rightarrow> bool" where
  "alternating opn [] = (\<not> opn)"
| "alternating opn (l # ls) =
     (if l = UL_OPEN then \<not> opn \<and> alternating True ls
      else if l = UL_CLOSE then opn \<and> alternating False ls
      else alternating opn ls)"

text \<open>
  \<open>has_bold_span\<close>: the bold pattern matches somewhere. \<open>count_pair\<close>: the number of
  positions at which \<open>**\<close> occurs. A plain line is neither a header line nor a bullet line.
\<close>

fun has_bold_span :: "pystr \<Rightarrow> bool" where
  "has_bold_span [] = False"
| "has_bold_span (c # cs) =
     (if c = star \<and> cs \<noteq> [] \<and> hd cs = star \<and> find_close (tl cs) \<noteq> None then True
      else has_bold_span cs)"

fun count_pair :: "pystr \<Rightarrow> nat" where
  "count_pair [] = 0"
| "count_pair (c # cs) =
     (if c = star \<and> cs \<noteq> [] \<and> hd cs = star then 1 else 0) + count_pair cs"

definition plain_line :: "pystr \<Rightarrow> bool" where
  "plain_line l =
     (\<not> startswith l (str ''# '') \<and> \<not> startswith l (str ''## '')
      \<and> \<not> startswith l (str ''### '') \<and> \<not> startswith (strip l) (str ''- ''))"

text \<open>
  \<open>count_occ p s\<close>: the number of positions of \<open>s\<close> at which \<open>p\<close> occurs as a substring.
\<close>

fun count_occ :: "pystr \<Rightarrow> pystr \<Rightarrow> nat" where
  "count_occ p [] = (if p = [] then 1 else 0)"
| "count_occ p (c # cs) = (if startswith (c # cs) p then 1 else 0) + count_occ p cs"

section \<open>Properties of \<open>strip\<close>\<close>

lemma last_dropWhile: "dropWhile P xs \<noteq> [] \<Longrightarrow> last (dropWhile P xs) = last xs"
  by (induction xs) (auto split: if_splits)

lemma strip_Nil: "strip [] = []"
  by (simp add: strip_def)

lemma strip_fixed:
  assumes "s \<noteq> []" and "\<not> is_space (hd s)" and "\<not> is_space (last s)"
  shows "strip s = s"
proof -
  from assms(1,2) have a: "dropWhile is_space s = s"
    by (cases s) simp_all
  from assms(1,3) have "dropWhile is_space (rev s) = rev s"
    by (cases "rev s") (simp_all add: hd_rev)
  with a show ?thesis by (simp add: strip_def)
qed

lemma strip_ends:
  assumes "strip s \<noteq> []"
  shows "\<not> is_space (hd (strip s))" and "\<not> is_space (last (strip s))"
proof -
  let ?a = "dropWhile is_space s"
  let ?t = "dropWhile is_space (rev ?a)"
  from assms have t: "?t \<noteq> []" by (simp add: strip_def)
  have a: "?a \<noteq> []"
  proof
    assume "?a = []"
    then have "?t = []" by (simp only: rev.simps dropWhile.simps)
    with t show False by blast
  qed
  have "hd (strip s) = last ?t" using t by (simp add: strip_def hd_rev)
  also have "\<dots> = last (rev ?a)" using t by (rule last_dropWhile)
  also have "\<dots> = hd ?a" using a by (simp add: last_rev)
  finally have "hd (strip s) = hd ?a" .
  moreover have "\<not> is_space (hd ?a)" using a by (rule hd_dropWhile)
  ultimately show "\<not> is_space (hd (strip s))" by simp
  have "last (strip s) = hd ?t" using t by (simp add: strip_def last_rev)
  moreover have "\<not> is_space (hd ?t)" using t by (rule hd_dropWhile)
  ultimately show "\<not> is_space (last (strip s))" by simp
qed

lemma strip_idem: "strip (strip s) = strip s"
proof (cases "strip s = []")
  case True
  then show ?thesis by (simp add: strip_Nil)
next
  case False
  then show ?thesis by (intro strip_fixed strip_ends)
qed

section \<open>Splitting and joining lines\<close>

lemma split_nl_not_Nil: "split_nl t \<noteq> []"
  by (induction t) (auto split: list.splits)

lemma split_nl_no_nl: "l \<in> set (split_nl t) \<Longrightarrow> nl \<notin> set l"
proof (induction t arbitrary: l)
  case Nil
  then show ?case by simp
next
  case (Cons c cs)
  then show ?case
    using split_nl_not_Nil [of cs] by (cases "split_nl cs") (auto split: if_splits)
qed

lemma join_split_nl: "join_nl (split_nl t) = t"
proof (induction t)
  case Nil
  show ?case by simp
next
  case (Cons c cs)
  obtain l ls where s: "split_nl cs = l # ls"
    using split_nl_not_Nil [of cs] by (cases "split_nl cs") auto
  with Cons show ?case
    by (cases ls) auto
qed

lemma split_nl_append:
  "nl \<notin> set l \<Longrightarrow> split_nl (l @ nl # t) = l # split_nl t"
proof (induction l)
  case Nil
  then show ?case using split_nl_not_Nil [of t] by (auto split: list.splits)
next
  case (Cons c l)
  then show ?case by auto
qed

lemma split_nl_single: "nl \<notin> set l \<Longrightarrow> split_nl l = [l]"
  by (induction l) auto

lemma split_join_nl:
  "ls \<noteq> [] \<Longrightarrow> list_all (\<lambda>l. nl \<notin> set l) ls \<Longrightarrow> split_nl (join_nl ls) = ls"
proof (induction ls rule: join_nl.induct)
  case 1
  then show ?case by simp
next
  case (2 l)
  then show ?case by (simp add: split_nl_single)
next
  case (3 l m ls)
  then show ?case by (simp add: split_nl_append)
qed

section \<open>The line scan\<close>

lemma scan_line_emit: "scan_line (fl, b) line = (fl @ emit b line, is_bullet line)"
  by (simp add: emit_def is_bullet_def Let_def)

lemma foldl_scan_line:
  "foldl scan_line (fl, b) lines = (fl', b') \<Longrightarrow>
     (if b' then fl' @ [UL_CLOSE] else fl') = fl @ emits b lines"
proof (induction lines arbitrary: fl b)
  case Nil
  then show ?case by auto
next
  case (Cons l lines)
  from Cons.prems have "foldl scan_line (fl @ emit b l, is_bullet l) lines = (fl', b')"
    by (simp only: foldl_Cons scan_line_emit)
  from Cons.IH [OF this] show ?case by simp
qed

lemma scan_lines_emits: "scan_lines lines = emits False lines"
proof -
  obtain fl' b' where "foldl scan_line ([], False) lines = (fl', b')"
    by (cases "foldl scan_line ([], False) lines")
  then show ?thesis
    using foldl_scan_line [of "[]" False lines fl' b'] by (simp add: scan_lines_def)
qed

declare scan_line.simps [simp del]

lemma blank_not_bullet: "strip l = [] \<Longrightarrow> \<not> is_bullet l"
  by (simp add: is_bullet_def startswith_def str_def)

lemma foldl_scan_line_snd:
  "snd (foldl scan_line (fl, b) lines) = (if lines = [] then b else is_bullet (last lines))"
  by (induction lines arbitrary: fl b) (simp_all add: scan_line_emit)

lemma scan_lines_open_at_end:
  assumes "snd (foldl scan_line ([], False) lines)"
  shows "scan_lines lines = fst (foldl scan_line ([], False) lines) @ [UL_CLOSE]"
  using assms by (cases "foldl scan_line ([], False) lines") (simp add: scan_lines_def)

section \<open>The tags\<close>

lemmas tag_defs = B_OPEN_def B_CLOSE_def H3_OPEN_def H3_CLOSE_def H2_OPEN_def H2_CLOSE_def
  H1_OPEN_def H1_CLOSE_def UL_OPEN_def UL_CLOSE_def LI_OPEN_def LI_CLOSE_def P_OPEN_def
  P_CLOSE_def

lemma opens_no_nl:
  "nl \<notin> set H3_OPEN" "nl \<notin> set H2_OPEN" "nl \<notin> set H1_OPEN"
  "nl \<notin> set H3_CLOSE" "nl \<notin> set H2_CLOSE" "nl \<notin> set H1_CLOSE"
  by (simp_all add: tag_defs str_def nl_def)

lemma opens_hd:
  "H3_OPEN = 60 # tl H3_OPEN" "H2_OPEN = 60 # tl H2_OPEN" "H1_OPEN = 60 # tl H1_OPEN"
  "P_OPEN = 60 # tl P_OPEN" "LI_OPEN = 60 # tl LI_OPEN"
  by (simp_all add: tag_defs str_def)

lemma closes_last:
  "H3_CLOSE = butlast H3_CLOSE @ [62]" "H2_CLOSE = butlast H2_CLOSE @ [62]"
  "H1_CLOSE = butlast H1_CLOSE @ [62]" "P_CLOSE = butlast P_CLOSE @ [62]"
  "LI_CLOSE = butlast LI_CLOSE @ [62]"
  by (simp_all add: tag_defs str_def)

lemma strip_tagged: "strip (60 # a @ [62]) = 60 # a @ [62]"
  by (rule strip_fixed) (simp_all add: is_space_def)

lemma not_bullet_tagged: "\<not> is_bullet (60 # a @ [62])"
  by (simp add: is_bullet_def strip_tagged startswith_def str_def)

lemma not_startswith_hash: 
  "\<not> startswith (60 # a) (str ''## '')" "\<not> startswith (60 # a) (str ''# '')"
  by (simp_all add: startswith_def str_def)

lemma prefix_lengths:
  "length (str ''### '') = 4" "length (str ''## '') = 3" "length (str ''# '') = 2"
  by (simp_all add: str_def)

lemma tags_distinct:
  "UL_OPEN \<noteq> UL_CLOSE" "LI_OPEN @ x @ LI_CLOSE \<noteq> UL_OPEN" "LI_OPEN @ x @ LI_CLOSE \<noteq> UL_CLOSE"
  "P_OPEN @ y @ P_CLOSE \<noteq> UL_OPEN" "P_OPEN @ y @ P_CLOSE \<noteq> UL_CLOSE"
  "UL_OPEN \<noteq> []" "UL_CLOSE \<noteq> []"
  "UL_CLOSE \<noteq> UL_OPEN" "[] \<noteq> UL_OPEN" "[] \<noteq> UL_CLOSE"
  by (simp_all add: tag_defs str_def)

lemma tags_no_nl:
  "nl \<notin> set UL_OPEN" "nl \<notin> set UL_CLOSE" "nl \<notin> set LI_OPEN" "nl \<notin> set LI_CLOSE"
  "nl \<notin> set P_OPEN" "nl \<notin> set P_CLOSE"
  by (simp_all add: tag_defs str_def nl_def)

lemmas eval_defs = scan_line.simps format_markdown_to_html_def sub_header_def scan_lines_def strip_def
  startswith_def is_space_def str_def star_def nl_def tag_defs

section \<open>The header passes\<close>

lemma split_sub_header:
  assumes "nl \<notin> set opn" and "nl \<notin> set cls"
  shows "split_nl (sub_header p opn cls t) =
           map (\<lambda>line. if startswith line p then opn @ drop (length p) line @ cls else line)
               (split_nl t)"
  unfolding sub_header_def
proof (rule split_join_nl)
  show "map (\<lambda>line. if startswith line p then opn @ drop (length p) line @ cls else line)
          (split_nl t) \<noteq> []"
    by (simp add: split_nl_not_Nil)
  show "list_all (\<lambda>l. nl \<notin> set l)
          (map (\<lambda>line. if startswith line p then opn @ drop (length p) line @ cls else line)
             (split_nl t))"
    using assms by (auto simp: list_all_iff dest!: in_set_dropD dest: split_nl_no_nl)
qed

lemma header_passes:
  "(let l3 = (if startswith l (str ''### '') then H3_OPEN @ drop (length (str ''### '')) l @ H3_CLOSE else l);
        l2 = (if startswith l3 (str ''## '') then H2_OPEN @ drop (length (str ''## '')) l3 @ H2_CLOSE else l3)
    in (if startswith l2 (str ''# '') then H1_OPEN @ drop (length (str ''# '')) l2 @ H1_CLOSE else l2))
   = header_line l"
proof -
  have a: "\<not> startswith (H3_OPEN @ x) (str ''## '')" "\<not> startswith (H3_OPEN @ x) (str ''# '')"
    "\<not> startswith (H2_OPEN @ x) (str ''# '')" for x
    by (subst opens_hd, simp add: not_startswith_hash)+
  show ?thesis
    by (auto simp: header_line_def prefix_lengths a Let_def)
qed

lemma format_lines:
  "format_markdown_to_html text =
     join_nl (emits False (map header_line (split_nl (sub_bold text))))"
proof -
  have "split_nl (sub_header (str ''# '') H1_OPEN H1_CLOSE
          (sub_header (str ''## '') H2_OPEN H2_CLOSE
             (sub_header (str ''### '') H3_OPEN H3_CLOSE (sub_bold text))))
        = map header_line (split_nl (sub_bold text))"
    by (simp add: split_sub_header opens_no_nl o_def header_passes [unfolded Let_def])
  then show ?thesis
    by (simp add: format_markdown_to_html_def Let_def scan_lines_emits)
qed

lemma header_line_heading:
  assumes "startswith l (str ''### '') \<or> startswith l (str ''## '') \<or> startswith l (str ''# '')"
  shows "\<exists>a. header_line l = 60 # a @ [62]"
proof -
  have "\<exists>a. H3_OPEN @ x @ H3_CLOSE = 60 # a @ [62]" for x
    by (subst opens_hd, subst closes_last) (rule exI [of _ "tl H3_OPEN @ x @ butlast H3_CLOSE"], simp)
  moreover have "\<exists>a. H2_OPEN @ x @ H2_CLOSE = 60 # a @ [62]" for x
    by (subst opens_hd, subst closes_last) (rule exI [of _ "tl H2_OPEN @ x @ butlast H2_CLOSE"], simp)
  moreover have "\<exists>a. H1_OPEN @ x @ H1_CLOSE = 60 # a @ [62]" for x
    by (subst opens_hd, subst closes_last) (rule exI [of _ "tl H1_OPEN @ x @ butlast H1_CLOSE"], simp)
  ultimately show ?thesis
    using assms by (auto simp: header_line_def)
qed

lemma strip_subset: "set (strip s) \<subseteq> set s"
proof -
  have "set (strip s) \<subseteq> set (dropWhile is_space s)"
    unfolding strip_def using set_dropWhileD [of _ is_space "rev (dropWhile is_space s)"] by auto
  then show ?thesis
    using set_dropWhileD [of _ is_space s] by auto
qed

lemma emit_no_nl: "nl \<notin> set l \<Longrightarrow> list_all (\<lambda>l. nl \<notin> set l) (emit b l)"
  using strip_subset [of l] by (auto simp: emit_def tags_no_nl dest!: in_set_dropD)

lemma emits_no_nl:
  "list_all (\<lambda>l. nl \<notin> set l) lines \<Longrightarrow> list_all (\<lambda>l. nl \<notin> set l) (emits b lines)"
  by (induction lines arbitrary: b) (simp_all add: emit_no_nl tags_no_nl)

lemma header_line_no_nl: "nl \<notin> set l \<Longrightarrow> nl \<notin> set (header_line l)"
  by (auto simp: header_line_def opens_no_nl dest!: in_set_dropD)

lemma format_output_lines:
  "split_nl (format_markdown_to_html text) =
     (if scan_lines (map header_line (split_nl (sub_bold text))) = [] then [[]]
      else scan_lines (map header_line (split_nl (sub_bold text))))"
proof -
  let ?ls = "map header_line (split_nl (sub_bold text))"
  have "nl \<notin> set (header_line l)" if "l \<in> set (split_nl (sub_bold text))" for l
    using that by (intro header_line_no_nl split_nl_no_nl)
  then have "list_all (\<lambda>l. nl \<notin> set l) ?ls"
    by (simp add: list_all_iff)
  then have "list_all (\<lambda>l. nl \<notin> set l) (emits False ?ls)"
    by (rule emits_no_nl)
  then show ?thesis
    by (simp add: format_lines scan_lines_emits split_join_nl)
qed

section \<open>Markers and bold spans\<close>

lemma alternating_emits: "alternating b (emits b lines)"
  by (induction lines arbitrary: b) (auto simp: emit_def tags_distinct)

lemma alternating_counts:
  "alternating b xs \<Longrightarrow>
     count_list xs UL_OPEN + (if b then 1 else 0) = count_list xs UL_CLOSE"
proof (induction xs arbitrary: b)
  case Nil
  then show ?case by simp
next
  case (Cons x xs)
  show ?case
  proof (cases "x = UL_OPEN")
    case True
    with Cons.prems have "\<not> b" "alternating True xs" by simp_all
    from Cons.IH [OF this(2)] True \<open>\<not> b\<close> show ?thesis
      by (simp add: tags_distinct)
  next
    case False
    show ?thesis
    proof (cases "x = UL_CLOSE")
      case True
      with False Cons.prems have "b" "alternating False xs" by simp_all
      from Cons.IH [OF this(2)] True \<open>b\<close> show ?thesis
        by (simp add: tags_distinct)
    next
      case c: False
      with False Cons.prems have "alternating b xs" by simp
      from Cons.IH [OF this] False c show ?thesis
        by simp
    qed
  qed
qed

lemma alternating_prefix:
  "alternating b xs \<Longrightarrow>
     count_list (take n xs) UL_CLOSE \<le> count_list (take n xs) UL_OPEN + (if b then 1 else 0)
     \<and> count_list (take n xs) UL_OPEN + (if b then 1 else 0) \<le> count_list (take n xs) UL_CLOSE + 1"
proof (induction xs arbitrary: b n)
  case Nil
  then show ?case by simp
next
  case (Cons x xs)
  show ?case
  proof (cases n)
    case 0
    then show ?thesis by simp
  next
    case (Suc m)
    show ?thesis
    proof (cases "x = UL_OPEN")
      case True
      with Cons.prems have "\<not> b" "alternating True xs" by simp_all
      from Cons.IH [OF this(2), of m] True \<open>\<not> b\<close> Suc show ?thesis
        by (simp add: tags_distinct)
    next
      case False
      show ?thesis
      proof (cases "x = UL_CLOSE")
        case True
        with False Cons.prems have "b" "alternating False xs" by simp_all
        from Cons.IH [OF this(2), of m] True \<open>b\<close> Suc show ?thesis
          by (simp add: tags_distinct)
      next
        case c: False
        with False Cons.prems have "alternating b xs" by simp
        from Cons.IH [OF this, of m] False c Suc show ?thesis
          by simp
      qed
    qed
  qed
qed

lemma sub_bold_no_span: "\<not> has_bold_span t \<Longrightarrow> sub_bold t = t"
  by (induction t) (auto split: if_splits option.splits)

lemma emits_plain:
  "list_all (\<lambda>l. \<not> is_bullet l) lines \<Longrightarrow>
     emits False lines =
       map (\<lambda>l. P_OPEN @ l @ P_CLOSE) (filter (\<lambda>l. strip l \<noteq> []) lines)"
  by (induction lines) (simp_all add: emit_def)

lemma find_close_at_pair:
  "count_pair (x @ [star]) = 0 \<Longrightarrow> nl \<notin> set x \<Longrightarrow>
     find_close (x @ star # star # rest) = Some (x, rest)"
proof (induction x)
  case Nil
  then show ?case by simp
next
  case (Cons c x)
  then show ?case
    by (cases x) (auto split: if_splits)
qed

lemma find_close_count: "find_close t = Some (x, r) \<Longrightarrow> 0 < count_pair t"
proof (induction t arbitrary: x)
  case Nil
  then show ?case by simp
next
  case (Cons c t)
  then show ?case by (auto split: if_splits)
qed

lemma sub_bold_no_pair: "count_pair t = 0 \<Longrightarrow> sub_bold t = t"
  by (induction t) (auto split: if_splits)

lemma sub_bold_single: "count_pair t = 1 \<Longrightarrow> sub_bold t = t"
proof (induction t)
  case Nil
  then show ?case by simp
next
  case (Cons c t)
  show ?case
  proof (cases "c = star \<and> t \<noteq> [] \<and> hd t = star")
    case True
    with Cons.prems have z: "count_pair t = 0" by simp
    then have "count_pair (tl t) = 0"
      using True by (cases t) (auto split: if_splits)
    then have "find_close (tl t) = None"
      using find_close_count [of "tl t"] by (cases "find_close (tl t)") auto
    with True z show ?thesis
      by (simp add: sub_bold_no_pair)
  next
    case False
    with Cons show ?thesis by auto
  qed
qed

lemma find_close_Some:
  "find_close t = Some (x, r) \<Longrightarrow>
     t = x @ star # star # r \<and> nl \<notin> set x \<and> count_pair (x @ [star]) = 0"
proof (induction t arbitrary: x)
  case Nil
  then show ?case by simp
next
  case (Cons c t)
  show ?case
  proof (cases "c = star \<and> t \<noteq> [] \<and> hd t = star")
    case True
    with Cons.prems show ?thesis by (cases t) auto
  next
    case False
    with Cons.prems obtain x' where c: "c \<noteq> nl" and f: "find_close t = Some (x', r)"
      and x: "x = c # x'"
      by (auto split: if_splits)
    from Cons.IH [OF f] have t: "t = x' @ star # star # r" and n: "nl \<notin> set x'"
      and p: "count_pair (x' @ [star]) = 0" by simp_all
    have "\<not> (c = star \<and> hd (x' @ [star]) = star)"
      using False t by (cases x') auto
    with t n p c x show ?thesis by auto
  qed
qed

lemma find_close_append:
  "find_close u = Some (x, r) \<Longrightarrow> find_close (u @ v) = Some (x, r @ v)"
proof -
  assume "find_close u = Some (x, r)"
  from find_close_Some [OF this] show ?thesis
    by (simp add: find_close_at_pair)
qed

lemma find_close_exists: "nl \<notin> set y \<Longrightarrow> find_close (y @ star # star # r) \<noteq> None"
  by (induction y) auto

lemma find_close_None_extend:
  "find_close (u @ [star, star]) = None \<Longrightarrow> find_close (u @ star # star # v) = None"
proof (induction u)
  case Nil
  then show ?case by simp
next
  case (Cons c u)
  then show ?case by (cases u) (auto split: if_splits)
qed

lemma sub_bold_first:
  "nl \<notin> set x \<Longrightarrow> count_pair (x @ [star]) = 0 \<Longrightarrow> \<not> has_bold_span (pre @ [star, star]) \<Longrightarrow>
   pre = [] \<or> last pre \<noteq> star \<Longrightarrow>
     sub_bold (pre @ [star, star] @ x @ [star, star] @ rest)
       = pre @ B_OPEN @ x @ B_CLOSE @ sub_bold rest"
proof (induction pre)
  case Nil
  then show ?case by (simp add: find_close_at_pair)
next
  case (Cons c pre)
  let ?t = "[star, star] @ x @ [star, star] @ rest"
  from Cons.prems(3) have nospan: "\<not> has_bold_span (pre @ [star, star])"
    by (auto split: if_splits)
  from Cons.prems(4) have lst: "pre = [] \<or> last pre \<noteq> star"
    by (auto split: if_splits)
  have IH: "sub_bold (pre @ ?t) = pre @ B_OPEN @ x @ B_CLOSE @ sub_bold rest"
    using Cons.IH [OF Cons.prems(1,2) nospan lst] .
  have step: "sub_bold (c # pre @ ?t) = c # sub_bold (pre @ ?t)"
  proof (cases "c = star \<and> hd (pre @ ?t) = star")
    case True
    with Cons.prems(4) have ne: "pre \<noteq> []" by auto
    then obtain d u where pre: "pre = d # u" by (cases pre) auto
    with True Cons.prems(3) have "find_close (u @ [star, star]) = None"
      by (cases "find_close (u @ [star, star])") (auto split: if_splits)
    then have "find_close (u @ star # star # x @ [star, star] @ rest) = None"
      by (rule find_close_None_extend)
    with True pre show ?thesis by simp
  next
    case False
    then show ?thesis by auto
  qed
  with IH show ?case by simp
qed

lemma has_bold_span_intro:
  "nl \<notin> set x \<Longrightarrow> has_bold_span (pre @ [star, star] @ x @ [star, star] @ rest)"
proof (induction pre)
  case Nil
  then show ?case using find_close_exists [of x rest] by simp
next
  case (Cons c pre)
  then show ?case by simp
qed

lemma has_bold_span_first:
  "has_bold_span t \<Longrightarrow>
     \<exists>pre x rest. t = pre @ [star, star] @ x @ [star, star] @ rest \<and> nl \<notin> set x
        \<and> count_pair (x @ [star]) = 0 \<and> \<not> has_bold_span (pre @ [star, star])
        \<and> (pre = [] \<or> last pre \<noteq> star)"
proof (induction t)
  case Nil
  then show ?case by simp
next
  case (Cons c t)
  show ?case
  proof (cases "c = star \<and> t \<noteq> [] \<and> hd t = star \<and> find_close (tl t) \<noteq> None")
    case True
    then obtain x r where f: "find_close (tl t) = Some (x, r)" by auto
    from find_close_Some [OF f] True
    have "c # t = [] @ [star, star] @ x @ [star, star] @ r" "nl \<notin> set x"
      "count_pair (x @ [star]) = 0"
      by (cases t; simp)+
    moreover have "\<not> has_bold_span ([] @ [star, star])" by simp
    ultimately show ?thesis by blast
  next
    case False
    with Cons.prems have "has_bold_span t" by (auto split: if_splits)
    from Cons.IH [OF this] obtain pre x rest where
      t: "t = pre @ [star, star] @ x @ [star, star] @ rest" and n: "nl \<notin> set x"
      and p: "count_pair (x @ [star]) = 0" and s: "\<not> has_bold_span (pre @ [star, star])"
      and l: "pre = [] \<or> last pre \<noteq> star"
      by blast
    have head: "\<not> (c = star \<and> hd t = star \<and> find_close (tl t) \<noteq> None)"
      using False t by auto
    have c_ok: "pre = [] \<Longrightarrow> c \<noteq> star"
    proof
      assume e: "pre = []" and c: "c = star"
      then have "tl t = (star # x) @ star # star # rest" using t by simp
      moreover have "nl \<notin> set (star # x)" using n by (simp add: star_def nl_def)
      ultimately have "find_close (tl t) \<noteq> None"
        using find_close_exists [of "star # x" rest] by simp
      with head c e t show False by simp
    qed
    have "\<not> has_bold_span ((c # pre) @ [star, star])"
    proof (cases "c = star \<and> hd (pre @ [star, star]) = star")
      case True
      with c_ok have ne: "pre \<noteq> []" by auto
      then obtain d u where pre: "pre = d # u" by (cases pre) auto
      have "find_close (u @ [star, star]) = None"
      proof (rule ccontr)
        assume "find_close (u @ [star, star]) \<noteq> None"
        then obtain y r where "find_close (u @ [star, star]) = Some (y, r)" by auto
        from find_close_append [OF this, of "x @ [star, star] @ rest"]
        have "find_close (tl t) \<noteq> None" using t pre by simp
        with head True t pre show False by simp
      qed
      with s pre show ?thesis by simp
    next
      case False
      with s show ?thesis by auto
    qed
    moreover have "c # pre = [] \<or> last (c # pre) \<noteq> star"
      using l c_ok by auto
    moreover have "c # t = (c # pre) @ [star, star] @ x @ [star, star] @ rest"
      using t by simp
    ultimately show ?thesis using n p by blast
  qed
qed

lemma has_bold_span_iff:
  "has_bold_span t \<longleftrightarrow>
     (\<exists>pre x rest. t = pre @ [star, star] @ x @ [star, star] @ rest \<and> nl \<notin> set x)"
  using has_bold_span_first [of t] has_bold_span_intro by blast

section \<open>The formatter\<close>

text \<open>
  On \<open>"- a\n\n- b"\<close> the formatter gives two list blocks: the empty line between the two
  bullet lines closes the first.
\<close>

theorem blank_line_between_bullets_counterexample:
  "format_markdown_to_html (str ''- a\<newline>\<newline>- b'') =
     join_nl [UL_OPEN, LI_OPEN @ str ''a'' @ LI_CLOSE, UL_CLOSE,
              UL_OPEN, LI_OPEN @ str ''b'' @ LI_CLOSE, UL_CLOSE]
   \<and> format_markdown_to_html (str ''- a\<newline>\<newline>- b'') \<noteq>
     join_nl [UL_OPEN, LI_OPEN @ str ''a'' @ LI_CLOSE, LI_OPEN @ str ''b'' @ LI_CLOSE, UL_CLOSE]"
  by (simp add: eval_defs)

text \<open>
  C1, as the code has it. An empty (whitespace-only) line adds no paragraph block, and it
  closes the list when one is open: the turn of the loop leaves \<open>formatted_lines\<close> as it
  was, or with \<open>UL_CLOSE\<close> appended, and \<open>in_list\<close> false. So two bullet lines with an
  empty line between them end up in two list blocks. After the loop, \<open>in_list\<close> is true
  exactly when the last line was a bullet line, and then \<open>UL_CLOSE\<close> is appended at
  end-of-text.
\<close>

theorem blank_line_closes_list:
  "(strip e = [] \<longrightarrow>
      scan_line (fl, in_list) e = (if in_list then fl @ [UL_CLOSE] else fl, False))
   \<and> (is_bullet a \<and> strip e = [] \<and> is_bullet b \<longrightarrow>
        scan_lines [a, e, b] =
          [UL_OPEN, LI_OPEN @ drop 2 (strip a) @ LI_CLOSE, UL_CLOSE,
           UL_OPEN, LI_OPEN @ drop 2 (strip b) @ LI_CLOSE, UL_CLOSE])
   \<and> (lines \<noteq> [] \<longrightarrow>
        snd (foldl scan_line ([], False) lines) = is_bullet (last lines))
   \<and> (snd (foldl scan_line ([], False) lines) \<longrightarrow>
        scan_lines lines = fst (foldl scan_line ([], False) lines) @ [UL_CLOSE])"
proof -
  have 1: "strip e = [] \<Longrightarrow>
      scan_line (fl, in_list) e = (if in_list then fl @ [UL_CLOSE] else fl, False)"
    by (simp add: scan_line_emit emit_def blank_not_bullet)
  have 2: "is_bullet a \<and> strip e = [] \<and> is_bullet b \<Longrightarrow>
        scan_lines [a, e, b] =
          [UL_OPEN, LI_OPEN @ drop 2 (strip a) @ LI_CLOSE, UL_CLOSE,
           UL_OPEN, LI_OPEN @ drop 2 (strip b) @ LI_CLOSE, UL_CLOSE]"
    by (simp add: scan_lines_emits emit_def blank_not_bullet)
  show ?thesis
    using 1 2 foldl_scan_line_snd [of "[]" False lines] scan_lines_open_at_end [of lines]
    by simp
qed

theorem blank_line_closes_list_witness:
  "strip (str ''  '') = []
   \<and> scan_line ([UL_OPEN, LI_OPEN @ str ''a'' @ LI_CLOSE], True) (str ''  '')
       = ([UL_OPEN, LI_OPEN @ str ''a'' @ LI_CLOSE, UL_CLOSE], False)
   \<and> is_bullet (str ''- a'') \<and> is_bullet (str ''- b'')
   \<and> scan_lines [str ''- a'', str ''  '', str ''- b''] =
          [UL_OPEN, LI_OPEN @ str ''a'' @ LI_CLOSE, UL_CLOSE,
           UL_OPEN, LI_OPEN @ str ''b'' @ LI_CLOSE, UL_CLOSE]
   \<and> snd (foldl scan_line ([], False) [str ''x'', str ''- a''])
   \<and> scan_lines [str ''x'', str ''- a''] =
        fst (foldl scan_line ([], False) [str ''x'', str ''- a'']) @ [UL_CLOSE]"
proof -
  have s: "strip (str ''  '') = []"
    by (simp add: strip_def is_space_def str_def)
  have a: "is_bullet (str ''- a'')" "strip (str ''- a'') = str ''- a''"
    "drop 2 (str ''- a'') = str ''a''"
    by (simp_all add: is_bullet_def strip_def is_space_def startswith_def str_def)
  have b: "is_bullet (str ''- b'')" "strip (str ''- b'') = str ''- b''"
    "drop 2 (str ''- b'') = str ''b''"
    by (simp_all add: is_bullet_def strip_def is_space_def startswith_def str_def)
  show ?thesis
    using s a b
      blank_line_closes_list [of "str ''  ''" "[UL_OPEN, LI_OPEN @ str ''a'' @ LI_CLOSE]" True
        "str ''- a''" "str ''- b''" "[str ''x'', str ''- a'']"]
    by simp
qed

text \<open>
  On \<open>" hi"\<close> the paragraph block holds the line with its leading space, not the trimmed
  line; on \<open>"a\nb"\<close> the formatter gives two paragraph blocks, one per line.
\<close>

theorem format_plain_text_counterexample:
  "format_markdown_to_html (str '' hi'') = P_OPEN @ str '' hi'' @ P_CLOSE
   \<and> format_markdown_to_html (str '' hi'') \<noteq> P_OPEN @ str ''hi'' @ P_CLOSE
   \<and> format_markdown_to_html (str ''a\<newline>b'') =
       P_OPEN @ str ''a'' @ P_CLOSE @ str ''\<newline>'' @ P_OPEN @ str ''b'' @ P_CLOSE"
  by (simp add: eval_defs)

text \<open>
  C2, as the code has it. For a text in which the bold pattern matches nowhere and no
  line is a header line or a bullet line, the formatter returns one paragraph block per
  line that is not empty after \<open>strip\<close>, joined by newlines, each holding its line
  unchanged (leading and trailing whitespace kept); empty lines give nothing.
\<close>

theorem format_plain_text:
  assumes "\<not> has_bold_span text" and "list_all plain_line (split_nl text)"
  shows "format_markdown_to_html text =
           join_nl (map (\<lambda>l. P_OPEN @ l @ P_CLOSE)
                        (filter (\<lambda>l. strip l \<noteq> []) (split_nl text)))"
proof -
  have "map header_line (split_nl text) = split_nl text"
    using assms(2) by (simp add: list_all_iff map_idI header_line_def plain_line_def)
  moreover have "list_all (\<lambda>l. \<not> is_bullet l) (split_nl text)"
    using assms(2) by (simp add: list_all_iff plain_line_def is_bullet_def)
  ultimately show ?thesis
    by (simp add: format_lines sub_bold_no_span [OF assms(1)] emits_plain)
qed

theorem format_plain_text_witness:
  "\<not> has_bold_span (str '' a*b \<newline>\<newline>c'')
   \<and> list_all plain_line (split_nl (str '' a*b \<newline>\<newline>c''))
   \<and> format_markdown_to_html (str '' a*b \<newline>\<newline>c'') =
       join_nl [P_OPEN @ str '' a*b '' @ P_CLOSE, P_OPEN @ str ''c'' @ P_CLOSE]"
proof -
  have a: "\<not> has_bold_span (str '' a*b \<newline>\<newline>c'')"
    by (simp add: str_def star_def)
  have s: "split_nl (str '' a*b \<newline>\<newline>c'') = [str '' a*b '', [], str ''c'']"
    by (simp add: str_def nl_def)
  have b: "list_all plain_line (split_nl (str '' a*b \<newline>\<newline>c''))"
    unfolding s by (simp add: plain_line_def startswith_def strip_def is_space_def str_def)
  have f: "filter (\<lambda>l. strip l \<noteq> []) [str '' a*b '', [], str ''c'']
             = [str '' a*b '', str ''c'']"
    by (simp add: strip_def is_space_def str_def)
  have "format_markdown_to_html (str '' a*b \<newline>\<newline>c'') =
          join_nl (map (\<lambda>l. P_OPEN @ l @ P_CLOSE)
                       (filter (\<lambda>l. strip l \<noteq> []) (split_nl (str '' a*b \<newline>\<newline>c''))))"
    by (rule format_plain_text [OF a b])
  then have c: "format_markdown_to_html (str '' a*b \<newline>\<newline>c'') =
       join_nl [P_OPEN @ str '' a*b '' @ P_CLOSE, P_OPEN @ str ''c'' @ P_CLOSE]"
    by (simp only: s f list.map)
  from a b c show ?thesis by (intro conjI)
qed

text \<open>
  On \<open>"### Title\nbody"\<close> the output is not the heading block followed by the paragraph
  block.
\<close>

theorem heading_block_counterexample:
  "format_markdown_to_html (str ''### Title\<newline>body'') \<noteq>
     join_nl [H3_OPEN @ str ''Title'' @ H3_CLOSE, P_OPEN @ str ''body'' @ P_CLOSE]"
  by (simp add: eval_defs)

text \<open>
  C3, as the code has it. \<open>"### Title\nbody"\<close> gives a paragraph block that wraps the
  level-3 heading block of \<open>Title\<close>, followed by a paragraph block of \<open>body\<close>. In general
  the formatter scans the lines of the text after the bold pass with the header
  substitutions applied to each, and a line that matched a header pattern is never a
  bullet line for the scan: it is wrapped as a paragraph, after closing a list that was
  open.
\<close>

theorem heading_line_is_paragraph:
  "format_markdown_to_html (str ''### Title\<newline>body'') =
     join_nl [P_OPEN @ H3_OPEN @ str ''Title'' @ H3_CLOSE @ P_CLOSE,
              P_OPEN @ str ''body'' @ P_CLOSE]
   \<and> format_markdown_to_html text =
       join_nl (scan_lines (map header_line (split_nl (sub_bold text))))
   \<and> (startswith l (str ''### '') \<or> startswith l (str ''## '') \<or> startswith l (str ''# '')
        \<longrightarrow>
        \<not> startswith (strip (header_line l)) (str ''- '')
        \<and> scan_line (fl, in_list) (header_line l) =
            ((if in_list then fl @ [UL_CLOSE] else fl) @ [P_OPEN @ header_line l @ P_CLOSE],
             False))"
proof -
  have 1: "format_markdown_to_html (str ''### Title\<newline>body'') =
     join_nl [P_OPEN @ H3_OPEN @ str ''Title'' @ H3_CLOSE @ P_CLOSE,
              P_OPEN @ str ''body'' @ P_CLOSE]"
    by (simp add: eval_defs)
  have 2: "format_markdown_to_html text =
       join_nl (scan_lines (map header_line (split_nl (sub_bold text))))"
    by (simp add: format_lines scan_lines_emits)
  have 3: "\<not> startswith (strip (header_line l)) (str ''- '')
        \<and> scan_line (fl, in_list) (header_line l) =
            ((if in_list then fl @ [UL_CLOSE] else fl) @ [P_OPEN @ header_line l @ P_CLOSE], False)"
    if "startswith l (str ''### '') \<or> startswith l (str ''## '') \<or> startswith l (str ''# '')"
  proof -
    from header_line_heading [OF that] obtain a where a: "header_line l = 60 # a @ [62]" ..
    have "\<not> is_bullet (header_line l)"
      by (simp add: a not_bullet_tagged)
    moreover have "strip (header_line l) \<noteq> []"
      by (simp add: a strip_tagged)
    ultimately show ?thesis
      by (simp add: scan_line_emit emit_def) (simp add: is_bullet_def)
  qed
  from 1 2 3 show ?thesis by blast
qed

theorem heading_line_is_paragraph_witness:
  "startswith (str ''### Title'') (str ''### '')
   \<and> header_line (str ''### Title'') = H3_OPEN @ str ''Title'' @ H3_CLOSE
   \<and> \<not> startswith (strip (header_line (str ''### Title''))) (str ''- '')
   \<and> scan_line ([], False) (header_line (str ''### Title'')) =
        ([P_OPEN @ H3_OPEN @ str ''Title'' @ H3_CLOSE @ P_CLOSE], False)"
proof -
  have a: "startswith (str ''### Title'') (str ''### '')"
    by (simp add: startswith_def str_def)
  have b: "header_line (str ''### Title'') = H3_OPEN @ str ''Title'' @ H3_CLOSE"
    by (simp add: header_line_def startswith_def str_def)
  show ?thesis
    using a b
      heading_line_is_paragraph [where l = "str ''### Title''" and fl = "[]" and in_list = False]
    by simp
qed

text \<open>
  On \<open>"**a\nb**"\<close> the bold pass changes nothing: the pair of \<open>**\<close> encloses a newline.
\<close>

theorem bold_span_across_lines_counterexample:
  "sub_bold (str ''**a\<newline>b**'') = str ''**a\<newline>b**''
   \<and> format_markdown_to_html (str ''**a\<newline>b**'') =
       join_nl [P_OPEN @ str ''**a'' @ P_CLOSE, P_OPEN @ str ''b**'' @ P_CLOSE]"
  by (simp add: eval_defs)

text \<open>
  C4, as the code has it. The bold pass scans from the left. The first span \<open>**x**\<close> of
  the text, with \<open>x\<close> free of newlines and ending at the first \<open>**\<close> behind the opening
  pair (the match is not greedy, as \<open>"**a**b**"\<close> shows), is replaced by \<open>x\<close> between
  \<open>B_OPEN\<close> and \<open>B_CLOSE\<close>; what stands before it is kept, also an earlier \<open>**\<close> that no
  \<open>**\<close> follows on its line, and the pass goes on behind the span. A text that nowhere
  contains \<open>**y**\<close> with \<open>y\<close> free of newlines is left unchanged, so a span that encloses a
  newline is not replaced, and neither is a single unpaired \<open>**\<close>. Every text that
  contains such a \<open>**y**\<close> has a first span in this sense, so these rules fix the result
  for every text. \<open>"****"\<close> becomes the empty emphasis element, which the formatter then
  wraps as a paragraph.
\<close>

theorem sub_bold_spans:
  "(nl \<notin> set x \<and> count_pair (x @ [star]) = 0 \<and> \<not> has_bold_span (pre @ [star, star])
      \<and> (pre = [] \<or> last pre \<noteq> star) \<longrightarrow>
      sub_bold (pre @ [star, star] @ x @ [star, star] @ rest)
        = pre @ B_OPEN @ x @ B_CLOSE @ sub_bold rest)
   \<and> (\<not> has_bold_span t \<longrightarrow> sub_bold t = t)
   \<and> (has_bold_span u \<longleftrightarrow>
        (\<exists>p y r. u = p @ [star, star] @ y @ [star, star] @ r \<and> nl \<notin> set y))
   \<and> (has_bold_span v \<longrightarrow>
        (\<exists>p y r. v = p @ [star, star] @ y @ [star, star] @ r \<and> nl \<notin> set y
           \<and> count_pair (y @ [star]) = 0 \<and> \<not> has_bold_span (p @ [star, star])
           \<and> (p = [] \<or> last p \<noteq> star)))
   \<and> (count_pair w = 1 \<longrightarrow> sub_bold w = w)
   \<and> sub_bold (str ''**a**b**'') = str ''<b>a</b>b**''
   \<and> sub_bold (str ''****'') = B_OPEN @ B_CLOSE
   \<and> format_markdown_to_html (str ''****'') = P_OPEN @ B_OPEN @ B_CLOSE @ P_CLOSE"
proof -
  have 1: "nl \<notin> set x \<and> count_pair (x @ [star]) = 0 \<and> \<not> has_bold_span (pre @ [star, star])
      \<and> (pre = [] \<or> last pre \<noteq> star) \<longrightarrow>
      sub_bold (pre @ [star, star] @ x @ [star, star] @ rest)
        = pre @ B_OPEN @ x @ B_CLOSE @ sub_bold rest"
    using sub_bold_first [of x pre rest] by blast
  have 2: "\<not> has_bold_span t \<longrightarrow> sub_bold t = t"
    by (simp add: sub_bold_no_span)
  have 3: "has_bold_span u \<longleftrightarrow>
        (\<exists>p y r. u = p @ [star, star] @ y @ [star, star] @ r \<and> nl \<notin> set y)"
    by (rule has_bold_span_iff)
  have 4: "has_bold_span v \<longrightarrow>
        (\<exists>p y r. v = p @ [star, star] @ y @ [star, star] @ r \<and> nl \<notin> set y
           \<and> count_pair (y @ [star]) = 0 \<and> \<not> has_bold_span (p @ [star, star])
           \<and> (p = [] \<or> last p \<noteq> star))"
    using has_bold_span_first [of v] by blast
  have 5: "count_pair w = 1 \<longrightarrow> sub_bold w = w"
    by (simp add: sub_bold_single)
  have 6: "sub_bold (str ''**a**b**'') = str ''<b>a</b>b**''"
    by (simp add: str_def star_def nl_def tag_defs)
  have 7: "sub_bold (str ''****'') = B_OPEN @ B_CLOSE"
    by (simp add: str_def star_def nl_def tag_defs)
  have 8: "format_markdown_to_html (str ''****'') = P_OPEN @ B_OPEN @ B_CLOSE @ P_CLOSE"
    by (simp add: eval_defs)
  from 1 2 3 4 5 6 7 8 show ?thesis by (intro conjI)
qed

theorem sub_bold_spans_witness:
  "nl \<notin> set (str ''b'') \<and> count_pair (str ''b'' @ [star]) = 0
   \<and> \<not> has_bold_span (str ''**a\<newline>'' @ [star, star])
   \<and> last (str ''**a\<newline>'') \<noteq> star
   \<and> sub_bold (str ''**a\<newline>**b** c'') = str ''**a\<newline><b>b</b> c''
   \<and> \<not> has_bold_span (str ''**a\<newline>b**'')
   \<and> sub_bold (str ''**a\<newline>b**'') = str ''**a\<newline>b**''
   \<and> has_bold_span (str ''x**y**'')
   \<and> (\<exists>p y r. str ''x**y**'' = p @ [star, star] @ y @ [star, star] @ r \<and> nl \<notin> set y
         \<and> count_pair (y @ [star]) = 0 \<and> \<not> has_bold_span (p @ [star, star])
         \<and> (p = [] \<or> last p \<noteq> star))
   \<and> count_pair (str ''a**b*c'') = 1
   \<and> sub_bold (str ''a**b*c'') = str ''a**b*c''"
proof -
  have a: "nl \<notin> set (str ''b'')" "count_pair (str ''b'' @ [star]) = 0"
    "\<not> has_bold_span (str ''**a\<newline>'' @ [star, star])"
    "last (str ''**a\<newline>'') \<noteq> star"
    "\<not> has_bold_span (str ''**a\<newline>b**'')"
    "count_pair (str ''a**b*c'') = 1"
    by (simp_all add: str_def star_def nl_def)
  have e: "str ''**a\<newline>**b** c'' =
             str ''**a\<newline>'' @ [star, star] @ str ''b'' @ [star, star] @ str '' c''"
    "str ''**a\<newline><b>b</b> c'' =
             str ''**a\<newline>'' @ B_OPEN @ str ''b'' @ B_CLOSE @ str '' c''"
    by (simp_all add: str_def star_def tag_defs)
  have r: "sub_bold (str '' c'') = str '' c''"
    by (simp add: str_def star_def)
  have h: "has_bold_span (str ''x**y**'')"
    using sub_bold_spans [where u = "str ''x**y**''"]
    by (simp add: str_def star_def nl_def)
  have s: "sub_bold (str ''**a\<newline>**b** c'') = str ''**a\<newline><b>b</b> c''"
    unfolding e using a r
      sub_bold_spans [where x = "str ''b''" and pre = "str ''**a\<newline>''" and rest = "str '' c''"]
    by simp
  have n: "sub_bold (str ''**a\<newline>b**'') = str ''**a\<newline>b**''"
    using a sub_bold_spans [where t = "str ''**a\<newline>b**''"] by simp
  have c: "sub_bold (str ''a**b*c'') = str ''a**b*c''"
    using a sub_bold_spans [where w = "str ''a**b*c''"] by simp
  have f: "\<exists>p y r. str ''x**y**'' = p @ [star, star] @ y @ [star, star] @ r \<and> nl \<notin> set y
         \<and> count_pair (y @ [star]) = 0 \<and> \<not> has_bold_span (p @ [star, star])
         \<and> (p = [] \<or> last p \<noteq> star)"
    using h sub_bold_spans [where v = "str ''x**y**''"] by blast
  from a h f s n c show ?thesis by (intro conjI)
qed

text \<open>
  On \<open>"- </ul>"\<close> the output contains the list-open tag once and the list-close tag twice,
  and on \<open>"</ul>"\<close> the close tag once and no open tag: the text of an item or a paragraph
  is written as it is.
\<close>

theorem unescaped_list_tag_counterexample:
  "format_markdown_to_html (str ''- </ul>'') =
     join_nl [UL_OPEN, LI_OPEN @ UL_CLOSE @ LI_CLOSE, UL_CLOSE]
   \<and> count_occ UL_OPEN (format_markdown_to_html (str ''- </ul>'')) = 1
   \<and> count_occ UL_CLOSE (format_markdown_to_html (str ''- </ul>'')) = 2
   \<and> format_markdown_to_html (str ''</ul>'') = P_OPEN @ UL_CLOSE @ P_CLOSE
   \<and> count_occ UL_OPEN (format_markdown_to_html (str ''</ul>'')) = 0
   \<and> count_occ UL_CLOSE (format_markdown_to_html (str ''</ul>'')) = 1"
  by (simp add: eval_defs)

text \<open>
  C10, as the code has it. For every text, the list markers that the formatter writes are
  balanced. It puts each marker on a line of its own, and every other line it writes
  starts with the paragraph or item tag, so its markers are the lines of the output equal
  to \<open>UL_OPEN\<close> or \<open>UL_CLOSE\<close>. Of these there are as many opens as closes; in every
  prefix of the output there are no more closes than opens and at most one list is open;
  and they alternate, so every list that is opened is closed, also at end-of-text. Tag
  text inside an item or a paragraph is not counted.
\<close>

theorem list_markers_balanced:
  "count_list (split_nl (format_markdown_to_html text)) UL_OPEN
     = count_list (split_nl (format_markdown_to_html text)) UL_CLOSE
   \<and> count_list (take n (split_nl (format_markdown_to_html text))) UL_CLOSE
       \<le> count_list (take n (split_nl (format_markdown_to_html text))) UL_OPEN
   \<and> count_list (take n (split_nl (format_markdown_to_html text))) UL_OPEN
       \<le> count_list (take n (split_nl (format_markdown_to_html text))) UL_CLOSE + 1
   \<and> alternating False (split_nl (format_markdown_to_html text))"
proof -
  let ?out = "split_nl (format_markdown_to_html text)"
  have alt: "alternating False ?out"
    using alternating_emits [of False "map header_line (split_nl (sub_bold text))"]
    by (simp add: format_output_lines scan_lines_emits tags_distinct)
  from alternating_counts [OF alt] alternating_prefix [OF alt, of n] alt
  show ?thesis by simp
qed

section \<open>The transcript\<close>

lemma foldl_append_concat: "foldl (\<lambda>acc x. acc @ f x) a xs = a @ concat (map f xs)"
  by (induction xs arbitrary: a) simp_all

text \<open>
  C5. Rendering a transcript concatenates one wrapper per entry, in order. An entry whose
  sender is \<open>You\<close> gets the user template around its sender and its message exactly as
  stored: the markdown formatter is not applied, so \<open>#\<close> and \<open>-\<close> stay as typed. Every other
  entry gets the assistant template around \<open>format_markdown_to_html\<close> of its message.
\<close>

theorem build_chat_history_html_by_role:
  "build_chat_history_html history =
     concat (map (\<lambda>(sender, message).
                    if sender = str ''You''
                    then USER_HEAD @ sender @ USER_MID @ message @ USER_TAIL
                    else AI_HEAD @ format_markdown_to_html message @ AI_TAIL)
                 history)"
proof -
  have "build_chat_history_html history =
          foldl (\<lambda>acc e. acc @ (case e of (sender, message) \<Rightarrow>
                   format_chat_message sender message (sender = str ''You''))) [] history"
    unfolding build_chat_history_html_def
    by (rule arg_cong [where f = "\<lambda>f. foldl f [] history"]) (auto simp: fun_eq_iff)
  also have "\<dots> = concat (map (\<lambda>e. case e of (sender, message) \<Rightarrow>
                   format_chat_message sender message (sender = str ''You'')) history)"
    by (simp add: foldl_append_concat)
  also have "\<dots> = concat (map (\<lambda>(sender, message).
                    if sender = str ''You''
                    then USER_HEAD @ sender @ USER_MID @ message @ USER_TAIL
                    else AI_HEAD @ format_markdown_to_html message @ AI_TAIL)
                 history)"
    by (rule arg_cong [where f = concat], rule map_cong) (auto simp: format_chat_message_def)
  finally show ?thesis .
qed

text \<open>
  C6. \<open>_add_to_chat\<close> leaves the history as it is when the message is empty after
  \<open>strip\<close>, so its length does not change; otherwise the history grows by exactly one
  entry, at the end, holding the sender and the stripped message. Appending
  \<open>("You", "hi")\<close> and then \<open>("AI", "hello")\<close> to the empty transcript gives the snapshot
  \<open>[("You", "hi"), ("AI", "hello")]\<close>.
\<close>

theorem add_to_chat_appends:
  "get_chat_history (add_to_chat self sender message) =
     (if strip message = [] then get_chat_history self
      else get_chat_history self @ [(sender, strip message)])
   \<and> length (get_chat_history (add_to_chat self sender message)) =
     (if strip message = [] then length (get_chat_history self)
      else length (get_chat_history self) + 1)
   \<and> get_chat_history init_app = []
   \<and> get_chat_history
       (add_to_chat (add_to_chat init_app (str ''You'') (str ''hi'')) (str ''AI'') (str ''hello''))
     = [(str ''You'', str ''hi''), (str ''AI'', str ''hello'')]"
proof -
  have general: "get_chat_history (add_to_chat s a m) =
     (if strip m = [] then get_chat_history s else get_chat_history s @ [(a, strip m)])"
    for s a m
    by (simp add: add_to_chat_def get_chat_history_def Let_def)
  have hi: "strip (str ''hi'') = str ''hi''"
    by (simp add: strip_def is_space_def str_def)
  have hello: "strip (str ''hello'') = str ''hello''"
    by (simp add: strip_def is_space_def str_def)
  have empty: "get_chat_history init_app = []"
    by (simp add: get_chat_history_def init_app_def)
  have ne: "str ''hi'' \<noteq> []" "str ''hello'' \<noteq> []"
    by (simp_all add: str_def)
  show ?thesis
    by (simp add: general hi hello empty ne)
qed

text \<open>
  C7. Whatever was appended since the start, \<open>clear_chat_history\<close> leaves an empty
  snapshot and puts the welcome markup into the chat area, and that markup is not the
  empty string.
\<close>

theorem clear_chat_history_resets:
  "get_chat_history
     (clear_chat_history
        (run_chat_ops init_app (map (\<lambda>(sender, message). Append sender message) entries))) = []
   \<and> chat_area
     (clear_chat_history
        (run_chat_ops init_app (map (\<lambda>(sender, message). Append sender message) entries)))
     = get_welcome_message
   \<and> get_welcome_message \<noteq> []"
  by (simp add: clear_chat_history_def get_chat_history_def get_welcome_message_def str_def)

text \<open>
  C8. \<open>set_model\<close> raises exactly when the requested name is not one of the three
  available models. When it raises the helper's \<open>model\<close> is what it was; when it does not,
  \<open>model\<close> is the requested name.
\<close>

theorem set_model_raises_iff:
  "get_available_models = [str ''gpt-4o-mini'', str ''gpt-4o'', str ''gpt-3.5-turbo'']
   \<and> (isl (fst (set_model self m)) \<longleftrightarrow> m \<notin> set get_available_models)
   \<and> (isl (fst (set_model self m)) \<longrightarrow> model (snd (set_model self m)) = model self)
   \<and> (\<not> isl (fst (set_model self m)) \<longrightarrow> model (snd (set_model self m)) = m)"
  by (simp add: set_model_def get_available_models_def Let_def)

theorem set_model_raises_iff_witness:
  "isl (fst (set_model \<lparr>model = str ''gpt-4o-mini''\<rparr> (str ''gpt-5'')))
   \<and> model (snd (set_model \<lparr>model = str ''gpt-4o-mini''\<rparr> (str ''gpt-5''))) = str ''gpt-4o-mini''
   \<and> \<not> isl (fst (set_model \<lparr>model = str ''gpt-4o-mini''\<rparr> (str ''gpt-4o'')))
   \<and> model (snd (set_model \<lparr>model = str ''gpt-4o-mini''\<rparr> (str ''gpt-4o''))) = str ''gpt-4o''"
proof -
  have a: "str ''gpt-5'' \<notin> set get_available_models"
    by (simp add: get_available_models_def str_def)
  have b: "\<not> str ''gpt-4o'' \<notin> set get_available_models"
    by (simp add: get_available_models_def)
  show ?thesis
    using a b set_model_raises_iff [of "\<lparr>model = str ''gpt-4o-mini''\<rparr>" "str ''gpt-5''"]
      set_model_raises_iff [of "\<lparr>model = str ''gpt-4o-mini''\<rparr>" "str ''gpt-4o''"]
    by simp
qed

lemma history_ok_add: "history_ok self \<Longrightarrow> history_ok (add_to_chat self sender message)"
  by (simp add: history_ok_def add_to_chat_def Let_def entry_ok_def strip_idem)

lemma history_ok_clear: "history_ok (clear_chat_history self)"
  by (simp add: history_ok_def clear_chat_history_def)

lemma history_ok_run: "history_ok self \<Longrightarrow> history_ok (run_chat_ops self ops)"
  unfolding run_chat_ops_def
proof (induction ops arbitrary: self)
  case Nil
  then show ?case by simp
next
  case (Cons x ops)
  then show ?case by (cases x) (simp_all add: history_ok_add history_ok_clear)
qed

text \<open>
  C9. The invariant holds at the start and every operation keeps it: \<open>_add_to_chat\<close>
  (which stores the stripped message), \<open>clear_chat_history\<close>, and so every run of the two.
  Where it holds, every entry of the snapshot has a message that is non-empty and equal
  to its own \<open>strip\<close>.
\<close>

theorem chat_history_invariant:
  "history_ok init_app
   \<and> (history_ok self \<longrightarrow>
        history_ok (add_to_chat self sender message)
        \<and> history_ok (clear_chat_history self)
        \<and> history_ok (run_chat_ops self ops))
   \<and> (history_ok self \<longrightarrow>
        (\<forall>e \<in> set (get_chat_history self). snd e \<noteq> [] \<and> strip (snd e) = snd e))"
  by (simp add: history_ok_add history_ok_clear history_ok_run)
    (simp add: history_ok_def init_app_def get_chat_history_def list_all_iff entry_ok_def)

theorem chat_history_invariant_witness:
  "history_ok init_app
   \<and> history_ok (add_to_chat init_app (str ''You'') (str '' hi ''))
   \<and> get_chat_history (add_to_chat init_app (str ''You'') (str '' hi ''))
       = [(str ''You'', str ''hi'')]
   \<and> str ''hi'' \<noteq> [] \<and> strip (str ''hi'') = str ''hi''
   \<and> history_ok (clear_chat_history init_app)
   \<and> history_ok (run_chat_ops init_app
        [Append (str ''You'') (str '' hi ''), Clear, Append (str ''AI'') (str ''ok'')])"
proof -
  let ?s = "add_to_chat init_app (str ''You'') (str '' hi '')"
  have a: "history_ok init_app"
    by (simp add: history_ok_def init_app_def)
  have b: "get_chat_history ?s = [(str ''You'', str ''hi'')]"
    by (simp add: add_to_chat_def get_chat_history_def init_app_def strip_def is_space_def
        str_def Let_def)
  have c: "history_ok ?s"
    using a chat_history_invariant [of init_app "str ''You''" "str '' hi ''" "[]"] by simp
  have d: "str ''hi'' \<noteq> [] \<and> strip (str ''hi'') = str ''hi''"
    using c b chat_history_invariant [of ?s "[]" "[]" "[]"] by simp
  show ?thesis
    using a b c d chat_history_invariant [of init_app "str ''You''" "str '' hi ''"
        "[Append (str ''You'') (str '' hi ''), Clear, Append (str ''AI'') (str ''ok'')]"]
    by simp
qed

end
